theory Spec2Isabelle
  imports Main "HOL-Library.Sublist"
begin

section \<open>Go strings\<close>

text \<open>
  A Go string is a sequence of bytes, here a \<^typ>\<open>string\<close> (a list of 8-bit characters).
  \<open>strings.TrimSpace\<close> removes the leading and the trailing white-space runes, where a rune
  is white space when \<open>unicode.IsSpace\<close> says so: tab, line feed, vertical tab, form feed,
  carriage return, space, U+0085, U+00A0, U+1680, U+2000 to U+200A, U+2028, U+2029, U+202F,
  U+205F and U+3000. A string starts (ends) with such a rune exactly when it starts (ends)
  with the UTF-8 encoding of one; a byte that decodes to no rune is not white space.
\<close>

definition space_runes :: "string list" where
  "space_runes =
    [[CHR 0x09], [CHR 0x0A], [CHR 0x0B], [CHR 0x0C], [CHR 0x0D], [CHR 0x20],
     [CHR 0xC2, CHR 0x85], [CHR 0xC2, CHR 0xA0],
     [CHR 0xE1, CHR 0x9A, CHR 0x80],
     [CHR 0xE2, CHR 0x80, CHR 0x80], [CHR 0xE2, CHR 0x80, CHR 0x81],
     [CHR 0xE2, CHR 0x80, CHR 0x82], [CHR 0xE2, CHR 0x80, CHR 0x83],
     [CHR 0xE2, CHR 0x80, CHR 0x84], [CHR 0xE2, CHR 0x80, CHR 0x85],
     [CHR 0xE2, CHR 0x80, CHR 0x86], [CHR 0xE2, CHR 0x80, CHR 0x87],
     [CHR 0xE2, CHR 0x80, CHR 0x88], [CHR 0xE2, CHR 0x80, CHR 0x89],
     [CHR 0xE2, CHR 0x80, CHR 0x8A],
     [CHR 0xE2, CHR 0x80, CHR 0xA8], [CHR 0xE2, CHR 0x80, CHR 0xA9],
     [CHR 0xE2, CHR 0x80, CHR 0xAF],
     [CHR 0xE2, CHR 0x81, CHR 0x9F],
     [CHR 0xE3, CHR 0x80, CHR 0x80]]"

text \<open>\<open>strings.TrimLeftFunc(s, unicode.IsSpace)\<close>: drop white-space runes from the front.\<close>

function TrimLeftSpace :: "string \<Rightarrow> string" where
  "TrimLeftSpace s =
     (case find (\<lambda>e. prefix e s) space_runes of
        None \<Rightarrow> s
      | Some e \<Rightarrow> TrimLeftSpace (drop (length e) s))"
  by pat_completeness auto
termination
proof (relation "measure length")
  show "wf (measure length)" by simp
next
  fix s :: string and e
  assume "find (\<lambda>e. prefix e s) space_runes = Some e"
  then have "e \<in> set space_runes" and "prefix e s"
    by (auto simp: find_Some_iff)
  then have "e \<noteq> []" and "length e \<le> length s"
    by (auto simp: space_runes_def prefix_length_le)
  then show "(drop (length e) s, s) \<in> measure length"
    by (cases e) auto
qed

text \<open>\<open>strings.TrimRightFunc(s, unicode.IsSpace)\<close>: drop white-space runes from the back.\<close>

function TrimRightSpace :: "string \<Rightarrow> string" where
  "TrimRightSpace s =
     (case find (\<lambda>e. suffix e s) space_runes of
        None \<Rightarrow> s
      | Some e \<Rightarrow> TrimRightSpace (take (length s - length e) s))"
  by pat_completeness auto
termination
proof (relation "measure length")
  show "wf (measure length)" by simp
next
  fix s :: string and e
  assume "find (\<lambda>e. suffix e s) space_runes = Some e"
  then have "e \<in> set space_runes" and "suffix e s"
    by (auto simp: find_Some_iff)
  then have "e \<noteq> []" and "length e \<le> length s"
    by (auto simp: space_runes_def suffix_length_le)
  then show "(take (length s - length e) s, s) \<in> measure length"
    by (cases e) auto
qed

declare TrimLeftSpace.simps [simp del] TrimRightSpace.simps [simp del]

text \<open>\<open>strings.TrimSpace\<close>: the front is trimmed first, then the back of what is left.\<close>

definition TrimSpace :: "string \<Rightarrow> string" where
  "TrimSpace s = TrimRightSpace (TrimLeftSpace s)"

text \<open>\<open>strings.Join(elems, sep)\<close>.\<close>

fun Join :: "string list \<Rightarrow> string \<Rightarrow> string" where
  "Join [] sep = []"
| "Join [x] sep = x"
| "Join (x # y # ys) sep = x @ sep @ Join (y # ys) sep"

definition leading_space :: "string \<Rightarrow> bool" where
  "leading_space s = (find (\<lambda>e. prefix e s) space_runes \<noteq> None)"

definition trailing_space :: "string \<Rightarrow> bool" where
  "trailing_space s = (find (\<lambda>e. suffix e s) space_runes \<noteq> None)"

text \<open>A name as the anchor callback appends it: not empty, and left as it is by trimming.\<close>

definition trimmed_name :: "string \<Rightarrow> bool" where
  "trimmed_name n = (n \<noteq> [] \<and> \<not> leading_space n \<and> \<not> trailing_space n)"

section \<open>The parsed document and its queries\<close>

text \<open>
  Colly parses the response body into a tree of \<open>html.Node\<close> values and hands it to goquery.
  An element has a tag name, attributes (key and value) and children; text, comment and
  doctype nodes are leaves. A document is the list of the children of the document node.
\<close>

datatype node =
    Element string "(string \<times> string) list" "node list"
  | TextNode string
  | CommentNode string
  | DoctypeNode string

type_synonym document = "node list"

fun children :: "node \<Rightarrow> node list" where
  "children (Element tag attrs cs) = cs"
| "children n = []"

text \<open>
  \<open>HTMLElement.Text\<close> is goquery's \<open>Text()\<close> of the node: the data of every text node of
  the subtree, concatenated in document order, with white space kept.
\<close>

fun node_text :: "node \<Rightarrow> string" where
  "node_text (TextNode s) = s"
| "node_text (Element tag attrs cs) = concat (map node_text cs)"
| "node_text n = []"

text \<open>A node followed by all its descendants, in document order (pre-order).\<close>

fun subtree :: "node \<Rightarrow> node list" where
  "subtree (Element tag attrs cs) = Element tag attrs cs # concat (map subtree cs)"
| "subtree n = [n]"

text \<open>
  The class selector of cascadia: the value of a \<open>class\<close> attribute is cut at each space,
  tab, carriage return, line feed or form feed, and one of the pieces must be the class name.
\<close>

definition class_separator :: "char \<Rightarrow> bool" where
  "class_separator c = (c \<in> set [CHR 0x20, CHR 0x09, CHR 0x0D, CHR 0x0A, CHR 0x0C])"

function matchInclude :: "string \<Rightarrow> string \<Rightarrow> bool" where
  "matchInclude val s =
     (if s = [] then False
      else if dropWhile (\<lambda>c. \<not> class_separator c) s = [] then s = val
      else if takeWhile (\<lambda>c. \<not> class_separator c) s = val then True
      else matchInclude val (tl (dropWhile (\<lambda>c. \<not> class_separator c) s)))"
  by pat_completeness auto
termination
proof (relation "measure (\<lambda>(val, s). length s)")
  show "wf (measure (\<lambda>(val, s). length s))" by simp
next
  fix val s :: string
  assume "dropWhile (\<lambda>c. \<not> class_separator c) s \<noteq> []"
  moreover have "length (dropWhile (\<lambda>c. \<not> class_separator c) s) \<le> length s"
    by (rule length_dropWhile_le)
  ultimately show "((val, tl (dropWhile (\<lambda>c. \<not> class_separator c) s)), (val, s))
      \<in> measure (\<lambda>(val, s). length s)"
    by (cases "dropWhile (\<lambda>c. \<not> class_separator c) s") auto
qed

declare matchInclude.simps [simp del]

text \<open>
  The three selectors of the program are a tag name with, for the byline, a class name:
  \<open>div.Page-authors\<close>, \<open>p\<close> and \<open>a\<close>.
\<close>

datatype selector = Selector string "string option"

fun matches :: "selector \<Rightarrow> node \<Rightarrow> bool" where
  "matches (Selector tag cls) (Element t attrs cs) =
     (t = tag \<and>
      (case cls of
         None \<Rightarrow> True
       | Some c \<Rightarrow> list_ex (\<lambda>(k, v). k = ''class'' \<and> matchInclude c v) attrs))"
| "matches sel n = False"

text \<open>
  goquery's \<open>Find\<close> below a node whose children are \<open>roots\<close>: every descendant that matches,
  in document order. The node itself is never a result.
\<close>

definition Find :: "selector \<Rightarrow> node list \<Rightarrow> node list" where
  "Find sel roots = filter (matches sel) (concat (map subtree roots))"

section \<open>The collector\<close>

text \<open>
  What \<open>c.Visit(url)\<close> meets, as far as the program can tell:
  the request is rejected before it is sent (\<open>Visit\<close> returns the error, no callback runs);
  the request fails (the \<open>OnError\<close> callback runs with the error and the request's URL,
  then \<open>Visit\<close> returns the error); or a response arrives and the \<open>OnHTML\<close> callbacks run
  over its parsed body (\<open>Visit\<close> returns \<open>nil\<close>). A response that is not HTML runs no
  callback, as the document without nodes does.
\<close>

datatype error = Error string

fun error_string :: "error \<Rightarrow> string" where
  "error_string (Error msg) = msg"

datatype visit = Rejected error | Failed error string | Page document

type_synonym web = "string \<Rightarrow> visit"

text \<open>
  The variables the callbacks of \<open>ScrapeArticle\<close> close over, and the lines written with the
  \<open>log\<close> package so far (without the time stamp the logger puts in front).
\<close>

record scrape_state =
  articleContent :: string
  author :: string
  authors :: "string list"
  logged :: "string list"

definition init_state :: scrape_state where
  "init_state = \<lparr>articleContent = [], author = [], authors = [], logged = []\<rparr>"

definition sel_Page_authors :: selector where
  "sel_Page_authors = Selector ''div'' (Some ''Page-authors'')"

definition sel_p :: selector where
  "sel_p = Selector ''p'' None"

definition sel_a :: selector where
  "sel_a = Selector ''a'' None"

text \<open>The callback of \<open>e.ForEach("a", ...)\<close> (scrape.go lines 37 to 43).\<close>

definition onAnchor :: "node \<Rightarrow> scrape_state \<Rightarrow> scrape_state" where
  "onAnchor el st =
     (let name = TrimSpace (node_text el)
      in if name \<noteq> [] then st\<lparr>authors := authors st @ [name]\<rparr> else st)"

text \<open>The callback for \<open>div.Page-authors\<close> (scrape.go lines 29 to 44).\<close>

definition onPageAuthors :: "node \<Rightarrow> scrape_state \<Rightarrow> scrape_state" where
  "onPageAuthors e st =
     (let text = node_text e;
          st1 = (if text \<noteq> [] then st\<lparr>author := TrimSpace text\<rparr> else st)
      in foldl (\<lambda>s el. onAnchor el s) st1 (Find sel_a (children e)))"

text \<open>The callback for \<open>p\<close> (scrape.go lines 47 to 50).\<close>

definition onParagraph :: "node \<Rightarrow> scrape_state \<Rightarrow> scrape_state" where
  "onParagraph e st = st\<lparr>articleContent := articleContent st @ node_text e @ [CHR 0x0A]\<rparr>"

text \<open>The \<open>OnError\<close> callback (scrape.go lines 53 to 55).\<close>

definition onError :: "error \<Rightarrow> string \<Rightarrow> scrape_state \<Rightarrow> scrape_state" where
  "onError err u st =
     st\<lparr>logged := logged st @ [''Error: '' @ error_string err @ '' at '' @ u]\<rparr>"

definition htmlCallbacks :: "(selector \<times> (node \<Rightarrow> scrape_state \<Rightarrow> scrape_state)) list" where
  "htmlCallbacks = [(sel_Page_authors, onPageAuthors), (sel_p, onParagraph)]"

text \<open>
  Colly runs the registered \<open>OnHTML\<close> callbacks in the order of their registration, each one
  on every element of the document that its selector finds, in document order.
\<close>

definition handleOnHTML ::
  "(selector \<times> (node \<Rightarrow> scrape_state \<Rightarrow> scrape_state)) list \<Rightarrow> document \<Rightarrow>
     scrape_state \<Rightarrow> scrape_state" where
  "handleOnHTML cbs doc st =
     foldl (\<lambda>s (sel, f). foldl (\<lambda>s' e. f e s') s (Find sel doc)) st cbs"

definition Visit :: "web \<Rightarrow> string \<Rightarrow> scrape_state \<Rightarrow> error option \<times> scrape_state" where
  "Visit w url st =
     (case w url of
        Rejected err \<Rightarrow> (Some err, st)
      | Failed err u \<Rightarrow> (Some err, onError err u st)
      | Page doc \<Rightarrow> (None, handleOnHTML htmlCallbacks doc st))"

text \<open>The state in which the traversal of a document leaves the variables.\<close>

definition traversed :: "document \<Rightarrow> scrape_state" where
  "traversed doc = handleOnHTML htmlCallbacks doc init_state"

text \<open>
  The names one matched element contributes: the trimmed texts of the anchors below it, in
  document order, without the empty ones.
\<close>

definition anchor_names :: "node \<Rightarrow> string list" where
  "anchor_names e =
     filter (\<lambda>name. name \<noteq> []) (map (\<lambda>el. TrimSpace (node_text el)) (Find sel_a (children e)))"

text \<open>The last of the elements whose text is not empty, if there is one.\<close>

definition last_with_text :: "node list \<Rightarrow> node option" where
  "last_with_text es =
     (case rev (filter (\<lambda>e. node_text e \<noteq> []) es) of [] \<Rightarrow> None | e # _ \<Rightarrow> Some e)"

section \<open>ScrapeArticle and the command\<close>

text \<open>
  \<open>ScrapeArticle\<close> (internal/scrape/scrape.go) returns the content, the byline and the
  error; the model returns them with the lines the call has logged.
\<close>

type_synonym scraped = "(string \<times> string \<times> error option) \<times> string list"

definition ScrapeArticle :: "web \<Rightarrow> string \<Rightarrow> scraped" where
  "ScrapeArticle w url =
     (case Visit w url init_state of
        (Some err, st) \<Rightarrow> (([], [], Some err), logged st)
      | (None, st) \<Rightarrow>
          (let st' = (if author st = [] \<and> length (authors st) > 0
                      then st\<lparr>author := Join (authors st) '' and ''\<rparr> else st)
           in ((articleContent st', author st', None), logged st')))"

text \<open>The older single-file program has its own copy, \<open>scrapeArticle\<close>, of the same body.\<close>

definition scrapeArticle :: "web \<Rightarrow> string \<Rightarrow> scraped" where
  "scrapeArticle w url =
     (case Visit w url init_state of
        (Some err, st) \<Rightarrow> (([], [], Some err), logged st)
      | (None, st) \<Rightarrow>
          (let st' = (if author st = [] \<and> length (authors st) > 0
                      then st\<lparr>author := Join (authors st) '' and ''\<rparr> else st)
           in ((articleContent st', author st', None), logged st')))"

definition content_of :: "scraped \<Rightarrow> string" where
  "content_of r = fst (fst r)"

definition byline_of :: "scraped \<Rightarrow> string" where
  "byline_of r = fst (snd (fst r))"

definition error_of :: "scraped \<Rightarrow> error option" where
  "error_of r = snd (snd (fst r))"

text \<open>
  What a run of the command does that can be seen: what it writes to standard output with
  \<open>fmt.Println\<close>, the messages it hands to the \<open>log\<close> package, in order, and its exit status
  (\<open>log.Fatal\<close> and \<open>log.Fatalf\<close> exit with status 1).
\<close>

datatype event = Stdout string | Log string

record run =
  events :: "event list"
  exit_status :: nat

text \<open>\<open>fmt.Println\<close>: the operands with a space between them, then a newline.\<close>

definition Println :: "string list \<Rightarrow> event" where
  "Println args = Stdout (Join args '' '' @ [CHR 0x0A])"

text \<open>\<open>main\<close> of the command, given the value of the \<open>-url\<close> flag.\<close>

definition main :: "web \<Rightarrow> string \<Rightarrow> run" where
  "main w urlPtr =
     (if urlPtr = []
      then \<lparr>events = [Log ''Please provide a URL using the -url flag''], exit_status = 1\<rparr>
      else
        (case ScrapeArticle w urlPtr of
           ((article, byline, Some err), logs) \<Rightarrow>
             \<lparr>events = map Log logs @ [Log (''Error scraping article: '' @ error_string err)],
              exit_status = 1\<rparr>
         | ((article, byline, None), logs) \<Rightarrow>
             \<lparr>events = map Log logs
                @ (if article = [] then [Log ''No article content found.'']
                   else [Println [''Scraped Article Content:''], Println [article]])
                @ (if byline = [] then [Println [''No author information found.'']]
                   else [Println [''Byline:'', byline]]),
              exit_status = 0\<rparr>))"

text \<open>\<open>main\<close> of the older single-file program, which calls its own \<open>scrapeArticle\<close>.\<close>

definition main_single_file :: "web \<Rightarrow> string \<Rightarrow> run" where
  "main_single_file w urlPtr =
     (if urlPtr = []
      then \<lparr>events = [Log ''Please provide a URL using the -url flag''], exit_status = 1\<rparr>
      else
        (case scrapeArticle w urlPtr of
           ((article, byline, Some err), logs) \<Rightarrow>
             \<lparr>events = map Log logs @ [Log (''Error scraping article: '' @ error_string err)],
              exit_status = 1\<rparr>
         | ((article, byline, None), logs) \<Rightarrow>
             \<lparr>events = map Log logs
                @ (if article = [] then [Log ''No article content found.'']
                   else [Println [''Scraped Article Content:''], Println [article]])
                @ (if byline = [] then [Println [''No author information found.'']]
                   else [Println [''Byline:'', byline]]),
              exit_status = 0\<rparr>))"

fun is_Stdout :: "event \<Rightarrow> bool" where
  "is_Stdout (Stdout s) = True"
| "is_Stdout (Log s) = False"

section \<open>Sample documents\<close>

definition page_authors_div :: "node list \<Rightarrow> node" where
  "page_authors_div cs = Element ''div'' [(''class'', ''Page-authors'')] cs"

definition a_element :: "string \<Rightarrow> node" where
  "a_element s = Element ''a'' [(''href'', ''/author'')] [TextNode s]"

definition p_element :: "string \<Rightarrow> node" where
  "p_element s = Element ''p'' [] [TextNode s]"

definition html_page :: "node list \<Rightarrow> document" where
  "html_page body =
     [DoctypeNode ''html'',
      Element ''html'' [] [Element ''head'' [] [], Element ''body'' [] body]]"

text \<open>One byline element holding two linked names and nothing else.\<close>

definition linked_names_page :: document where
  "linked_names_page =
     html_page [page_authors_div [a_element ''Jane Doe'', a_element ''John Smith'']]"

text \<open>The same, followed by a second byline element that holds one space.\<close>

definition blank_second_page :: document where
  "blank_second_page =
     html_page [page_authors_div [a_element ''Jane Doe'', a_element ''John Smith''],
                page_authors_div [TextNode '' '']]"

text \<open>
  A byline with text of its own in front of a linked name, a paragraph, and a second
  byline element without any text.
\<close>

definition by_jane_page :: document where
  "by_jane_page =
     html_page [page_authors_div [TextNode ''By '', a_element ''Jane Doe''],
                p_element ''First.'',
                page_authors_div []]"

text \<open>Two byline elements with text, and two paragraphs.\<close>

definition two_bylines_page :: document where
  "two_bylines_page =
     html_page [page_authors_div [TextNode ''By '', a_element ''Jane Doe''],
                p_element ''First.'',
                page_authors_div [TextNode ''By '', a_element ''John Smith''],
                p_element ''Second.'']"

text \<open>Paragraphs and no byline element; a byline element and no paragraph.\<close>

definition no_byline_page :: document where
  "no_byline_page =
     html_page [Element ''div'' [(''class'', ''Page-content'')] [p_element ''First.'']]"


definition serve :: "document \<Rightarrow> web" where
  "serve doc = (\<lambda>url. Page doc)"

definition unreachable :: web where
  "unreachable = (\<lambda>url. Failed (Error ''no such host'') url)"

section \<open>Trimming\<close>

lemma TrimLeftSpace_id: "\<not> leading_space s \<Longrightarrow> TrimLeftSpace s = s"
  by (simp add: leading_space_def TrimLeftSpace.simps)

lemma TrimRightSpace_id: "\<not> trailing_space s \<Longrightarrow> TrimRightSpace s = s"
  by (simp add: trailing_space_def TrimRightSpace.simps)

lemma TrimLeftSpace_no_leading: "\<not> leading_space (TrimLeftSpace s)"
proof (induction s rule: TrimLeftSpace.induct)
  case (1 s)
  show ?case
  proof (cases "find (\<lambda>e. prefix e s) space_runes")
    case None
    then show ?thesis by (simp add: TrimLeftSpace.simps leading_space_def)
  next
    case (Some e)
    with "1.IH" show ?thesis by (simp add: TrimLeftSpace.simps [of s])
  qed
qed

lemma TrimRightSpace_no_trailing: "\<not> trailing_space (TrimRightSpace s)"
proof (induction s rule: TrimRightSpace.induct)
  case (1 s)
  show ?case
  proof (cases "find (\<lambda>e. suffix e s) space_runes")
    case None
    then show ?thesis by (simp add: TrimRightSpace.simps trailing_space_def)
  next
    case (Some e)
    with "1.IH" show ?thesis by (simp add: TrimRightSpace.simps [of s])
  qed
qed

lemma TrimRightSpace_prefix: "prefix (TrimRightSpace s) s"
proof (induction s rule: TrimRightSpace.induct)
  case (1 s)
  show ?case
  proof (cases "find (\<lambda>e. suffix e s) space_runes")
    case None
    then show ?thesis by (simp add: TrimRightSpace.simps)
  next
    case (Some e)
    with "1.IH" have "prefix (TrimRightSpace s) (take (length s - length e) s)"
      by (simp add: TrimRightSpace.simps [of s])
    moreover have "prefix (take (length s - length e) s) s"
      by (rule take_is_prefix)
    ultimately show ?thesis by (rule prefix_order.trans)
  qed
qed

lemma leading_space_prefix: "leading_space t \<Longrightarrow> prefix t s \<Longrightarrow> leading_space s"
  unfolding leading_space_def find_None_iff
  by (meson prefix_order.trans)

lemma TrimSpace_no_leading: "\<not> leading_space (TrimSpace s)"
  unfolding TrimSpace_def
  using TrimLeftSpace_no_leading leading_space_prefix TrimRightSpace_prefix by blast

lemma TrimSpace_no_trailing: "\<not> trailing_space (TrimSpace s)"
  unfolding TrimSpace_def by (rule TrimRightSpace_no_trailing)

lemma TrimSpace_id: "\<not> leading_space s \<Longrightarrow> \<not> trailing_space s \<Longrightarrow> TrimSpace s = s"
  by (simp add: TrimSpace_def TrimLeftSpace_id TrimRightSpace_id)

lemma TrimSpace_idem: "TrimSpace (TrimSpace s) = TrimSpace s"
  by (rule TrimSpace_id [OF TrimSpace_no_leading TrimSpace_no_trailing])

lemma no_space_Nil: "\<not> leading_space []" "\<not> trailing_space []"
  by (simp_all add: leading_space_def trailing_space_def space_runes_def)

lemma TrimSpace_Nil: "TrimSpace [] = []"
  by (simp add: TrimSpace_id no_space_Nil)

lemma space_runes_tl: "e \<in> set space_runes \<Longrightarrow> CHR 0x20 \<notin> set (tl e)"
  by (auto simp: space_runes_def)

lemma space_runes_butlast: "e \<in> set space_runes \<Longrightarrow> CHR 0x20 \<notin> set (butlast e)"
  by (auto simp: space_runes_def)

text \<open>
  A white-space rune in front of \<open>s @ r\<close> lies within \<open>s\<close> when \<open>s\<close> is not empty and \<open>r\<close>
  starts with a space: no encoding of more than one byte has a space after its first byte.
\<close>

lemma leading_space_append:
  assumes "leading_space (s @ r)" and "s \<noteq> []" and "r = [] \<or> hd r = CHR 0x20"
  shows "leading_space s"
proof -
  from assms(1) obtain e where e: "e \<in> set space_runes" "prefix e (s @ r)"
    by (auto simp: leading_space_def find_None_iff)
  from e(2) obtain us where "prefix e s \<or> (prefix us r \<and> e = s @ us)"
    by (auto simp: prefix_append)
  then consider "prefix e s" | us where "us \<noteq> []" "prefix us r" "e = s @ us"
    by (cases "us = []") auto
  then show ?thesis
  proof cases
    case 1
    with e(1) show ?thesis by (auto simp: leading_space_def find_None_iff)
  next
    case 2
    then have "r \<noteq> []" by auto
    with assms(3) have "hd r = CHR 0x20" by simp
    with 2 \<open>r \<noteq> []\<close> have "hd us = CHR 0x20"
      by (cases us; cases r) auto
    with 2 assms(2) have "CHR 0x20 \<in> set (tl e)"
      by (cases s; cases us) auto
    with space_runes_tl [OF e(1)] show ?thesis by simp
  qed
qed

lemma trailing_space_append:
  assumes "trailing_space (r @ s)" and "s \<noteq> []" and "r = [] \<or> last r = CHR 0x20"
  shows "trailing_space s"
proof -
  from assms(1) obtain e where e: "e \<in> set space_runes" "suffix e (r @ s)"
    by (auto simp: trailing_space_def find_None_iff)
  from e(2) obtain us where "suffix e s \<or> (suffix us r \<and> e = us @ s)"
    by (auto simp: suffix_append)
  then consider "suffix e s" | us where "us \<noteq> []" "suffix us r" "e = us @ s"
    by (cases "us = []") auto
  then show ?thesis
  proof cases
    case 1
    with e(1) show ?thesis by (auto simp: trailing_space_def find_None_iff)
  next
    case 2
    then have "r \<noteq> []" by auto
    with assms(3) have "last r = CHR 0x20" by simp
    with 2 \<open>r \<noteq> []\<close> have "last us = CHR 0x20"
      by (auto simp: suffix_def)
    with 2 assms(2) have "CHR 0x20 \<in> set (butlast e)"
      by (simp add: butlast_append) (metis last_in_set)
    with space_runes_butlast [OF e(1)] show ?thesis by simp
  qed
qed

lemma trimmed_name_TrimSpace: "TrimSpace s \<noteq> [] \<Longrightarrow> trimmed_name (TrimSpace s)"
  by (simp add: trimmed_name_def TrimSpace_no_leading TrimSpace_no_trailing)

lemma Join_Nil_iff: "list_all trimmed_name ns \<Longrightarrow> Join ns sep = [] \<longleftrightarrow> ns = []"
  by (induction ns sep rule: Join.induct) (auto simp: trimmed_name_def)

lemma Join_no_leading:
  assumes "list_all trimmed_name ns"
  shows "\<not> leading_space (Join ns '' and '')"
proof (cases ns)
  case Nil
  then show ?thesis by (simp add: no_space_Nil)
next
  case (Cons n ms)
  show ?thesis
  proof (cases ms)
    case Nil
    with Cons assms show ?thesis by (simp add: trimmed_name_def)
  next
    case (Cons m ms')
    with \<open>ns = n # ms\<close> assms
      leading_space_append [of n "'' and '' @ Join (m # ms') '' and ''"]
    show ?thesis by (auto simp: trimmed_name_def)
  qed
qed

lemma Join_no_trailing:
  "list_all trimmed_name ns \<Longrightarrow> \<not> trailing_space (Join ns '' and '')"
proof (induction ns "'' and ''" rule: Join.induct)
  case 1
  then show ?case by (simp add: no_space_Nil)
next
  case (2 x)
  then show ?case by (simp add: trimmed_name_def)
next
  case (3 x y ys)
  then have IH: "\<not> trailing_space (Join (y # ys) '' and '')" by simp
  from 3 have ne: "Join (y # ys) '' and '' \<noteq> []"
    using Join_Nil_iff [of "y # ys" "'' and ''"] by simp
  show ?case
  proof
    assume "trailing_space (Join (x # y # ys) '' and '')"
    then have "trailing_space ((x @ '' and '') @ Join (y # ys) '' and '')" by simp
    from trailing_space_append [OF this ne] IH show False by simp
  qed
qed

section \<open>The callbacks, field by field\<close>

lemma onAnchor_fields [simp]:
  "articleContent (onAnchor el st) = articleContent st"
  "author (onAnchor el st) = author st"
  "logged (onAnchor el st) = logged st"
  "authors (onAnchor el st) =
     authors st @ filter (\<lambda>name. name \<noteq> []) [TrimSpace (node_text el)]"
  by (simp_all add: onAnchor_def Let_def)

lemma foldl_onAnchor_fields [simp]:
  "articleContent (foldl (\<lambda>s el. onAnchor el s) st els) = articleContent st"
  "author (foldl (\<lambda>s el. onAnchor el s) st els) = author st"
  "logged (foldl (\<lambda>s el. onAnchor el s) st els) = logged st"
  "authors (foldl (\<lambda>s el. onAnchor el s) st els) =
     authors st @ filter (\<lambda>name. name \<noteq> []) (map (\<lambda>el. TrimSpace (node_text el)) els)"
  by (induction els arbitrary: st; simp)+

lemma onPageAuthors_fields:
  "articleContent (onPageAuthors e st) = articleContent st"
  "logged (onPageAuthors e st) = logged st"
  "author (onPageAuthors e st) =
     (if node_text e \<noteq> [] then TrimSpace (node_text e) else author st)"
  "authors (onPageAuthors e st) = authors st @ anchor_names e"
  by (simp_all add: onPageAuthors_def anchor_names_def Let_def)

lemma last_with_text_snoc:
  "last_with_text (es @ [e]) = (if node_text e \<noteq> [] then Some e else last_with_text es)"
  by (simp add: last_with_text_def)

lemma foldl_onPageAuthors_fields:
  "articleContent (foldl (\<lambda>s e. onPageAuthors e s) st es) = articleContent st"
  "logged (foldl (\<lambda>s e. onPageAuthors e s) st es) = logged st"
  "author (foldl (\<lambda>s e. onPageAuthors e s) st es) =
     (case last_with_text es of None \<Rightarrow> author st | Some e \<Rightarrow> TrimSpace (node_text e))"
  "authors (foldl (\<lambda>s e. onPageAuthors e s) st es) = authors st @ concat (map anchor_names es)"
  by (induction es rule: rev_induct;
      simp add: onPageAuthors_fields last_with_text_snoc last_with_text_def)+

lemma foldl_onParagraph_fields:
  "articleContent (foldl (\<lambda>s e. onParagraph e s) st ps) =
     articleContent st @ concat (map (\<lambda>p. node_text p @ [CHR 0x0A]) ps)"
  "logged (foldl (\<lambda>s e. onParagraph e s) st ps) = logged st"
  "author (foldl (\<lambda>s e. onParagraph e s) st ps) = author st"
  "authors (foldl (\<lambda>s e. onParagraph e s) st ps) = authors st"
  by (induction ps arbitrary: st; simp add: onParagraph_def)+

lemma traversed_fields:
  "articleContent (traversed doc) = concat (map (\<lambda>p. node_text p @ [CHR 0x0A]) (Find sel_p doc))"
  "logged (traversed doc) = []"
  "author (traversed doc) =
     (case last_with_text (Find sel_Page_authors doc) of
        None \<Rightarrow> [] | Some e \<Rightarrow> TrimSpace (node_text e))"
  "authors (traversed doc) = concat (map anchor_names (Find sel_Page_authors doc))"
  by (simp_all add: traversed_def handleOnHTML_def htmlCallbacks_def
        foldl_onParagraph_fields foldl_onPageAuthors_fields init_state_def
      split: option.split)

lemma ScrapeArticle_Page:
  "w url = Page doc \<Longrightarrow>
   ScrapeArticle w url =
     ((articleContent (traversed doc),
       (if author (traversed doc) = [] \<and> authors (traversed doc) \<noteq> []
        then Join (authors (traversed doc)) '' and '' else author (traversed doc)),
       None), [])"
  by (simp add: ScrapeArticle_def Visit_def traversed_fields(2) Let_def flip: traversed_def)

lemma scrapeArticle_eq: "scrapeArticle = ScrapeArticle"
  by (intro ext) (simp add: scrapeArticle_def ScrapeArticle_def)

lemma main_single_file_eq: "main_single_file = main"
  by (intro ext) (simp add: main_single_file_def main_def scrapeArticle_eq)

lemma anchor_names_trimmed: "list_all trimmed_name (anchor_names e)"
  by (auto simp: anchor_names_def list_all_iff trimmed_name_TrimSpace)

lemma authors_traversed_trimmed: "list_all trimmed_name (authors (traversed doc))"
  by (simp add: traversed_fields(4) list_all_iff)
     (metis anchor_names_trimmed list_all_iff)

lemma last_with_text_middle:
  "node_text e \<noteq> [] \<Longrightarrow> \<forall>e' \<in> set es'. node_text e' = [] \<Longrightarrow>
   last_with_text (es @ e # es') = Some e"
proof -
  assume a: "node_text e \<noteq> []" and b: "\<forall>e' \<in> set es'. node_text e' = []"
  from b have "filter (\<lambda>e. node_text e \<noteq> []) es' = []"
    by (simp add: filter_empty_conv)
  with a show ?thesis by (simp add: last_with_text_def)
qed

lemma author_traversed_trimmed: "TrimSpace (author (traversed doc)) = author (traversed doc)"
  by (simp add: traversed_fields(3) TrimSpace_Nil TrimSpace_idem split: option.split)

lemma ScrapeArticle_error:
  "w url = Rejected err \<or> w url = Failed err u \<Longrightarrow>
   fst (ScrapeArticle w url) = ([], [], Some err)"
  by (auto simp: ScrapeArticle_def Visit_def)

lemma byline_shape:
  "byline_of (ScrapeArticle w url) = [] \<or>
   (\<exists>s. byline_of (ScrapeArticle w url) = TrimSpace s \<and> TrimSpace s \<noteq> []) \<or>
   (\<exists>ns. ns \<noteq> [] \<and> list_all trimmed_name ns \<and>
      byline_of (ScrapeArticle w url) = Join ns '' and '')"
proof (cases "w url")
  case (Rejected err)
  then show ?thesis by (simp add: byline_of_def ScrapeArticle_error)
next
  case (Failed err u)
  then show ?thesis by (simp add: byline_of_def ScrapeArticle_error)
next
  case (Page doc)
  show ?thesis
  proof (cases "author (traversed doc) = []")
    case True
    with Page authors_traversed_trimmed [of doc] show ?thesis
      by (auto simp: byline_of_def ScrapeArticle_Page)
  next
    case False
    with Page author_traversed_trimmed [of doc] have
      "byline_of (ScrapeArticle w url) = TrimSpace (author (traversed doc))"
      "TrimSpace (author (traversed doc)) \<noteq> []"
      by (simp_all add: byline_of_def ScrapeArticle_Page)
    then show ?thesis by blast
  qed
qed

section \<open>The claims\<close>

text \<open>
  C1. When the page holds at least one \<open>p\<close> element, the content that \<open>ScrapeArticle\<close>
  returns is the text of each \<open>p\<close> element followed by a newline, in document order,
  whatever \<open>div.Page-authors\<close> elements the page holds. The copy \<open>scrapeArticle\<close> of the
  single-file program returns the same.
\<close>

theorem content_is_paragraph_texts:
  assumes "w url = Page doc" and "Find sel_p doc \<noteq> []"
  shows "content_of (ScrapeArticle w url) =
           concat (map (\<lambda>p. node_text p @ [CHR 0x0A]) (Find sel_p doc)) \<and>
         content_of (scrapeArticle w url) =
           concat (map (\<lambda>p. node_text p @ [CHR 0x0A]) (Find sel_p doc))"
  using assms(1)
  by (simp add: scrapeArticle_eq content_of_def ScrapeArticle_Page traversed_fields(1))

theorem content_is_paragraph_texts_witness:
  "serve two_bylines_page ''https://apnews.com/article/a'' = Page two_bylines_page \<and>
   length (Find sel_p two_bylines_page) = 2 \<and>
   length (Find sel_Page_authors two_bylines_page) = 2 \<and>
   content_of (ScrapeArticle (serve two_bylines_page) ''https://apnews.com/article/a'') =
     ''First.'' @ [CHR 0x0A] @ ''Second.'' @ [CHR 0x0A]"
proof -
  have h1: "serve two_bylines_page ''https://apnews.com/article/a'' = Page two_bylines_page"
    by (simp add: serve_def)
  have h2: "Find sel_p two_bylines_page \<noteq> []"
    by code_simp
  have v: "concat (map (\<lambda>p. node_text p @ [CHR 0x0A]) (Find sel_p two_bylines_page)) =
       ''First.'' @ [CHR 0x0A] @ ''Second.'' @ [CHR 0x0A]"
    by code_simp
  have n1: "length (Find sel_p two_bylines_page) = 2"
    by code_simp
  have n2: "length (Find sel_Page_authors two_bylines_page) = 2"
    by code_simp
  from content_is_paragraph_texts
         [where w = "serve two_bylines_page" and url = "''https://apnews.com/article/a''"
            and doc = two_bylines_page, OF h1 h2]
    v h1 n1 n2
  show ?thesis
    by simp
qed

text \<open>
  C2. When the traversal of the page leaves the combined byline empty and the list of
  names not empty, the byline returned is the names joined with \<open>" and "\<close>: the names of
  the anchors of every matched element, in document order.
\<close>

theorem byline_is_joined_names:
  assumes "w url = Page doc"
    and "author (traversed doc) = []"
    and "authors (traversed doc) \<noteq> []"
  shows "byline_of (ScrapeArticle w url) = Join (authors (traversed doc)) '' and '' \<and>
         byline_of (scrapeArticle w url) = Join (authors (traversed doc)) '' and '' \<and>
         authors (traversed doc) = concat (map anchor_names (Find sel_Page_authors doc))"
  using assms
  by (simp add: scrapeArticle_eq byline_of_def ScrapeArticle_Page traversed_fields(4))

theorem byline_is_joined_names_witness:
  "author (traversed blank_second_page) = [] \<and>
   authors (traversed blank_second_page) = [''Jane Doe'', ''John Smith''] \<and>
   byline_of (ScrapeArticle (serve blank_second_page) ''https://apnews.com/article/a'') =
     ''Jane Doe and John Smith''"
proof -
  have h1: "serve blank_second_page ''https://apnews.com/article/a'' = Page blank_second_page"
    by (simp add: serve_def)
  have h2: "author (traversed blank_second_page) = []"
    by code_simp
  have v: "authors (traversed blank_second_page) = [''Jane Doe'', ''John Smith'']"
    by code_simp
  then have h3: "authors (traversed blank_second_page) \<noteq> []"
    by simp
  from byline_is_joined_names
         [where w = "serve blank_second_page" and url = "''https://apnews.com/article/a''"
            and doc = blank_second_page, OF h1 h2 h3]
    h2 v
  show ?thesis
    by simp
qed

text \<open>
  C3. The page holds one \<open>div.Page-authors\<close> whose children are exactly two anchors, with
  the texts \<open>"Jane Doe"\<close> and \<open>"John Smith"\<close>. The text of the element is the text of its
  anchors, one after the other, so the combined byline is not empty and the names are not
  joined: the byline returned is \<open>"Jane DoeJohn Smith"\<close>.
\<close>

theorem linked_names_byline:
  "Find sel_Page_authors linked_names_page =
     [page_authors_div [a_element ''Jane Doe'', a_element ''John Smith'']] \<and>
   anchor_names (page_authors_div [a_element ''Jane Doe'', a_element ''John Smith'']) =
     [''Jane Doe'', ''John Smith''] \<and>
   ScrapeArticle (serve linked_names_page) ''https://apnews.com/article/a'' =
     (([], ''Jane DoeJohn Smith'', None), [])"
  by code_simp

text \<open>
  C4, as stated, fails: a page can hold a \<open>div.Page-authors\<close> whose trimmed text is
  \<open>"By Jane Doe"\<close> and a later one with another text, and the later one gives the byline.
\<close>

theorem byline_of_earlier_match_counterexample:
  "page_authors_div [TextNode ''By '', a_element ''Jane Doe'']
     \<in> set (Find sel_Page_authors two_bylines_page) \<and>
   TrimSpace (node_text (page_authors_div [TextNode ''By '', a_element ''Jane Doe''])) =
     ''By Jane Doe'' \<and>
   byline_of (ScrapeArticle (serve two_bylines_page) ''https://apnews.com/article/a'') =
     ''By John Smith''"
  by code_simp

text \<open>
  C4, amended. The page holds a \<open>div.Page-authors\<close> whose trimmed text is \<open>"By Jane Doe"\<close>,
  and no \<open>div.Page-authors\<close> after it in the document has any text. Then the byline returned
  is \<open>"By Jane Doe"\<close>, whatever names the anchors of the matched elements give.
\<close>

theorem byline_is_combined_text:
  assumes "w url = Page doc"
    and "Find sel_Page_authors doc = es @ e # es'"
    and "TrimSpace (node_text e) = ''By Jane Doe''"
    and "\<forall>e' \<in> set es'. node_text e' = []"
  shows "byline_of (ScrapeArticle w url) = ''By Jane Doe''"
proof -
  from assms(3) have "node_text e \<noteq> []"
    using TrimSpace_Nil by fastforce
  with assms(2,4) have "last_with_text (Find sel_Page_authors doc) = Some e"
    by (simp add: last_with_text_middle)
  with assms(3) have "author (traversed doc) = ''By Jane Doe''"
    by (simp add: traversed_fields(3))
  with assms(1) show ?thesis
    by (simp add: byline_of_def ScrapeArticle_Page)
qed

theorem byline_is_combined_text_witness:
  "Find sel_Page_authors by_jane_page =
     [] @ page_authors_div [TextNode ''By '', a_element ''Jane Doe''] # [page_authors_div []] \<and>
   anchor_names (page_authors_div [TextNode ''By '', a_element ''Jane Doe'']) = [''Jane Doe''] \<and>
   byline_of (ScrapeArticle (serve by_jane_page) ''https://apnews.com/article/a'') =
     ''By Jane Doe''"
proof -
  have h1: "serve by_jane_page ''https://apnews.com/article/a'' = Page by_jane_page"
    by (simp add: serve_def)
  have h2: "Find sel_Page_authors by_jane_page =
      [] @ page_authors_div [TextNode ''By '', a_element ''Jane Doe''] # [page_authors_div []]"
    by code_simp
  have h3: "TrimSpace (node_text (page_authors_div [TextNode ''By '', a_element ''Jane Doe''])) =
      ''By Jane Doe''"
    by code_simp
  have h4: "\<forall>e' \<in> set [page_authors_div []]. node_text e' = []"
    by (simp add: page_authors_div_def)
  have v: "anchor_names (page_authors_div [TextNode ''By '', a_element ''Jane Doe'']) =
      [''Jane Doe'']"
    by code_simp
  from byline_is_combined_text
         [where w = "serve by_jane_page" and url = "''https://apnews.com/article/a''"
            and doc = by_jane_page, OF h1 h2 h3 h4]
    h2 v
  show ?thesis
    by simp
qed

text \<open>
  C5. Every \<open>div.Page-authors\<close> of the page is processed, two or more as well as one or
  none. After the traversal the combined byline is the trimmed text of the last match whose
  text is not empty (the matches that assign it), and empty when there is none; the list of
  names is the names of the anchors of the first match, then those of the second, and so on.
\<close>

theorem all_matches_processed:
  "author (traversed doc) =
     (case last_with_text (Find sel_Page_authors doc) of
        None \<Rightarrow> []
      | Some e \<Rightarrow> TrimSpace (node_text e)) \<and>
   authors (traversed doc) = concat (map anchor_names (Find sel_Page_authors doc))"
  by (simp add: traversed_fields(3,4))

theorem all_matches_processed_witness:
  "length (Find sel_Page_authors two_bylines_page) = 2 \<and>
   author (traversed two_bylines_page) = ''By John Smith'' \<and>
   authors (traversed two_bylines_page) = [''Jane Doe'', ''John Smith'']"
proof -
  have n: "length (Find sel_Page_authors two_bylines_page) = 2"
    by code_simp
  have v1: "(case last_with_text (Find sel_Page_authors two_bylines_page) of
        None \<Rightarrow> []
      | Some e \<Rightarrow> TrimSpace (node_text e)) = ''By John Smith''"
    by code_simp
  have v2: "concat (map anchor_names (Find sel_Page_authors two_bylines_page)) =
      [''Jane Doe'', ''John Smith'']"
    by code_simp
  from all_matches_processed [of two_bylines_page] n v1 v2 show ?thesis
    by simp
qed




text \<open>
  C7. When the request for the URL cannot be completed, \<open>ScrapeArticle\<close> returns the error
  with an empty content and an empty byline, and the command writes nothing to standard
  output and exits with status 1.
\<close>

theorem failed_request_no_result:
  assumes "w url = Rejected err \<or> w url = Failed err u"
  shows "content_of (ScrapeArticle w url) = [] \<and>
         byline_of (ScrapeArticle w url) = [] \<and>
         error_of (ScrapeArticle w url) = Some err \<and>
         filter is_Stdout (events (main w url)) = [] \<and>
         exit_status (main w url) = 1"
proof -
  obtain logs where r: "ScrapeArticle w url = (([], [], Some err), logs)"
    using ScrapeArticle_error [where w = w and url = url, OF assms] by (cases "ScrapeArticle w url") auto
  have "is_Stdout \<circ> Log = (\<lambda>x. False)"
    by (rule ext) simp
  with r show ?thesis
    by (simp add: content_of_def byline_of_def error_of_def main_def)
qed

theorem failed_request_no_result_witness:
  "unreachable ''https://no.such.host/'' =
     Failed (Error ''no such host'') ''https://no.such.host/'' \<and>
   ScrapeArticle unreachable ''https://no.such.host/'' =
     (([], [], Some (Error ''no such host'')),
      [''Error: no such host at https://no.such.host/'']) \<and>
   filter is_Stdout (events (main unreachable ''https://no.such.host/'')) = [] \<and>
   exit_status (main unreachable ''https://no.such.host/'') = 1"
proof -
  have h0: "unreachable ''https://no.such.host/'' =
      Failed (Error ''no such host'') ''https://no.such.host/''"
    by (simp add: unreachable_def)
  then have h: "unreachable ''https://no.such.host/'' = Rejected (Error ''no such host'') \<or>
      unreachable ''https://no.such.host/'' =
        Failed (Error ''no such host'') ''https://no.such.host/''"
    by (rule disjI2)
  have v: "ScrapeArticle unreachable ''https://no.such.host/'' =
     (([], [], Some (Error ''no such host'')),
      [''Error: no such host at https://no.such.host/''])"
    by code_simp
  from failed_request_no_result
         [where w = unreachable and url = "''https://no.such.host/''", OF h] h0 v
  show ?thesis by blast
qed



text \<open>
  C9. When the page holds no \<open>div.Page-authors\<close> element, the byline returned is empty and
  the command prints the line \<open>No author information found.\<close>
\<close>

theorem no_byline_element_no_byline:
  assumes "w url = Page doc" and "Find sel_Page_authors doc = []" and "url \<noteq> []"
  shows "byline_of (ScrapeArticle w url) = [] \<and>
         Stdout (''No author information found.'' @ [CHR 0x0A]) \<in> set (events (main w url))"
  using assms
  by (simp add: byline_of_def main_def ScrapeArticle_Page traversed_fields(3,4)
        last_with_text_def Println_def)

theorem no_byline_element_no_byline_witness:
  "Find sel_Page_authors no_byline_page = [] \<and>
   byline_of (ScrapeArticle (serve no_byline_page) ''https://apnews.com/article/a'') = [] \<and>
   Stdout (''No author information found.'' @ [CHR 0x0A])
     \<in> set (events (main (serve no_byline_page) ''https://apnews.com/article/a''))"
proof -
  have h1: "serve no_byline_page ''https://apnews.com/article/a'' = Page no_byline_page"
    by (simp add: serve_def)
  have h2: "Find sel_Page_authors no_byline_page = []"
    by code_simp
  have h3: "''https://apnews.com/article/a'' \<noteq> []"
    by simp
  from no_byline_element_no_byline
         [where w = "serve no_byline_page" and url = "''https://apnews.com/article/a''"
            and doc = no_byline_page, OF h1 h2 h3]
    h2
  show ?thesis
    by simp
qed

text \<open>
  C10. The byline that \<open>ScrapeArticle\<close> returns has no white space at its front or at its
  back, and trimming it gives it back, for every outcome of the visit and every page.
\<close>

theorem byline_is_trimmed:
  "TrimSpace (byline_of (ScrapeArticle w url)) = byline_of (ScrapeArticle w url) \<and>
   \<not> leading_space (byline_of (ScrapeArticle w url)) \<and>
   \<not> trailing_space (byline_of (ScrapeArticle w url))"
proof -
  have "\<not> leading_space (byline_of (ScrapeArticle w url)) \<and>
        \<not> trailing_space (byline_of (ScrapeArticle w url))"
    using byline_shape [of w url]
    by (auto simp: no_space_Nil TrimSpace_no_leading TrimSpace_no_trailing
          Join_no_leading Join_no_trailing)
  then show ?thesis by (simp add: TrimSpace_id)
qed

theorem byline_is_trimmed_witness:
  "byline_of (ScrapeArticle (serve blank_second_page) ''https://apnews.com/article/b'') =
     ''Jane Doe and John Smith'' \<and>
   TrimSpace ''Jane Doe and John Smith'' = ''Jane Doe and John Smith''"
proof -
  have v: "byline_of (ScrapeArticle (serve blank_second_page) ''https://apnews.com/article/b'') =
      ''Jane Doe and John Smith''"
    by code_simp
  from byline_is_trimmed [of "serve blank_second_page" "''https://apnews.com/article/b''"] v
  show ?thesis by simp
qed

end
